theory Spec2Isabelle
  imports Main "HOL-Library.Word" "HOL-Library.Sublist"
begin

section \<open>JavaScript strings\<close>

text \<open>
  A JavaScript string is a sequence of UTF-16 code units. \<open>length\<close>, \<open>slice\<close>,
  \<open>trim\<close> and a regular expression without the \<open>u\<close> flag all work on code units,
  so a string is modelled as a list of 16-bit words. \<open>js\<close> embeds an ASCII literal of
  the source.
\<close>

type_synonym jsstring = "16 word list"

definition js :: "string \<Rightarrow> jsstring" where
  "js s = map of_char s"

text \<open>
  White space and line terminators of ECMAScript: what \<open>String.prototype.trim\<close>
  strips and what the class \<open>\s\<close> matches.
\<close>

definition isLineTerminator :: "16 word \<Rightarrow> bool" where
  "isLineTerminator c \<longleftrightarrow> c = 0xA \<or> c = 0xD \<or> c = 0x2028 \<or> c = 0x2029"

definition isWhiteSpace :: "16 word \<Rightarrow> bool" where
  "isWhiteSpace c \<longleftrightarrow>
     c = 0x9 \<or> c = 0xB \<or> c = 0xC \<or> c = 0x20 \<or> c = 0xA0 \<or> c = 0x1680 \<or>
     (0x2000 \<le> c \<and> c \<le> 0x200A) \<or> c = 0x202F \<or> c = 0x205F \<or> c = 0x3000 \<or>
     c = 0xFEFF \<or> isLineTerminator c"

definition isDigit :: "16 word \<Rightarrow> bool" where
  "isDigit c \<longleftrightarrow> 0x30 \<le> c \<and> c \<le> 0x39"

definition trim :: "jsstring \<Rightarrow> jsstring" where
  "trim s = rev (dropWhile isWhiteSpace (rev (dropWhile isWhiteSpace s)))"

text \<open>Decimal rendering of a number inside a template string.\<close>

fun decimal :: "nat \<Rightarrow> jsstring" where
  "decimal n = (if n < 10 then [0x30 + of_nat n]
                else decimal (n div 10) @ [0x30 + of_nat (n mod 10)])"


section \<open>The validation library\<close>

text \<open>
  The schema is built with the string schema of zod 3 (the component reads
  \<open>result.error.errors\<close>, which is the version 3 interface). Its parser runs the
  checks of a string schema in the order they were chained. Every failing check adds
  one issue and the parser goes on to the next check; \<open>trim\<close> is a check that
  replaces the value under test by its trimmed form, so the checks chained after it see
  the trimmed value. An issue carries the message given to the check, or else the
  message of the default error map.
\<close>

datatype check =
    Trim
  | Min nat "jsstring option"
  | Max nat "jsstring option"
  | Email "jsstring option"

definition too_small_message :: "nat \<Rightarrow> jsstring" where
  "too_small_message n = js ''String must contain at least '' @ decimal n @ js '' character(s)''"

definition too_big_message :: "nat \<Rightarrow> jsstring" where
  "too_big_message n = js ''String must contain at most '' @ decimal n @ js '' character(s)''"

definition invalid_email_message :: jsstring where
  "invalid_email_message = js ''Invalid email''"

definition message_or :: "jsstring option \<Rightarrow> jsstring \<Rightarrow> jsstring" where
  "message_or m d = (case m of Some x \<Rightarrow> x | None \<Rightarrow> d)"

text \<open>
  The email pattern of zod 3.23 and later:
  \<^verbatim>\<open>/^(?!\.)(?!.*\.\.)([A-Z0-9_'+\-\.]*)[A-Z0-9_+-]@([A-Z0-9][A-Z0-9\-]*\.)+[A-Z]{2,}$/i\<close>
  Under the flag \<open>i\<close> (without \<open>u\<close>) the class \<open>[A-Z]\<close> matches exactly the
  ASCII letters of both cases. No class of the pattern contains \<open>@\<close>, so the \<open>@\<close>
  of a match is the first one of the string; no class of the domain part contains
  \<open>.\<close> except as the label separator, so the labels are the pieces between the dots.
\<close>

definition isAlpha :: "16 word \<Rightarrow> bool" where
  "isAlpha c \<longleftrightarrow> (0x41 \<le> c \<and> c \<le> 0x5A) \<or> (0x61 \<le> c \<and> c \<le> 0x7A)"

definition isAlnum :: "16 word \<Rightarrow> bool" where
  "isAlnum c \<longleftrightarrow> isAlpha c \<or> isDigit c"

definition localChar :: "16 word \<Rightarrow> bool" where
  \<comment> \<open>\<^verbatim>\<open>[A-Z0-9_'+\-\.]\<close>\<close>
  "localChar c \<longleftrightarrow> isAlnum c \<or> c = 0x5F \<or> c = 0x27 \<or> c = 0x2B \<or> c = 0x2D \<or> c = 0x2E"

definition localLast :: "16 word \<Rightarrow> bool" where
  \<comment> \<open>\<^verbatim>\<open>[A-Z0-9_+-]\<close>\<close>
  "localLast c \<longleftrightarrow> isAlnum c \<or> c = 0x5F \<or> c = 0x2B \<or> c = 0x2D"

definition labelChar :: "16 word \<Rightarrow> bool" where
  \<comment> \<open>\<^verbatim>\<open>[A-Z0-9\-]\<close>\<close>
  "labelChar c \<longleftrightarrow> isAlnum c \<or> c = 0x2D"

fun splitOn :: "'a \<Rightarrow> 'a list \<Rightarrow> 'a list list" where
  "splitOn c [] = [[]]"
| "splitOn c (x # xs) =
     (if x = c then [] # splitOn c xs
      else (case splitOn c xs of [] \<Rightarrow> [[x]] | p # ps \<Rightarrow> (x # p) # ps))"

fun hasDotDot :: "jsstring \<Rightarrow> bool" where
  "hasDotDot (a # b # cs) = ((a = 0x2E \<and> b = 0x2E) \<or> hasDotDot (b # cs))"
| "hasDotDot _ = False"

definition label :: "jsstring \<Rightarrow> bool" where
  \<comment> \<open>\<^verbatim>\<open>[A-Z0-9][A-Z0-9\-]*\<close>\<close>
  "label p \<longleftrightarrow> (case p of [] \<Rightarrow> False | c # cs \<Rightarrow> isAlnum c \<and> list_all labelChar cs)"

definition tld :: "jsstring \<Rightarrow> bool" where
  \<comment> \<open>\<^verbatim>\<open>[A-Z]{2,}\<close>\<close>
  "tld p \<longleftrightarrow> 2 \<le> length p \<and> list_all isAlpha p"

definition domainPart :: "jsstring \<Rightarrow> bool" where
  \<comment> \<open>\<^verbatim>\<open>([A-Z0-9][A-Z0-9\-]*\.)+[A-Z]{2,}$\<close>\<close>
  "domainPart d \<longleftrightarrow>
     (let parts = splitOn 0x2E d
      in 2 \<le> length parts \<and> list_all label (butlast parts) \<and> tld (last parts))"

definition localPart :: "jsstring \<Rightarrow> bool" where
  \<comment> \<open>\<^verbatim>\<open>([A-Z0-9_'+\-\.]*)[A-Z0-9_+-]\<close>\<close>
  "localPart l \<longleftrightarrow> l \<noteq> [] \<and> list_all localChar (butlast l) \<and> localLast (last l)"

definition emailRegex :: "jsstring \<Rightarrow> bool" where
  "emailRegex s \<longleftrightarrow>
     \<not> (case s of [] \<Rightarrow> False | c # _ \<Rightarrow> c = 0x2E) \<and>
     \<not> hasDotDot (takeWhile (\<lambda>c. \<not> isLineTerminator c) s) \<and>
     (let l = takeWhile (\<lambda>c. c \<noteq> 0x40) s; r = dropWhile (\<lambda>c. c \<noteq> 0x40) s
      in localPart l \<and> r \<noteq> [] \<and> domainPart (tl r))"

text \<open>
  The check loop of the string parser. The result is the list of the messages of the
  issues, in the order they are added; the empty list is a successful parse.
\<close>

fun zString_parse :: "check list \<Rightarrow> jsstring \<Rightarrow> jsstring list" where
  "zString_parse [] d = []"
| "zString_parse (Trim # cs) d = zString_parse cs (trim d)"
| "zString_parse (Min n m # cs) d =
     (if length d < n then [message_or m (too_small_message n)] else []) @ zString_parse cs d"
| "zString_parse (Max n m # cs) d =
     (if length d > n then [message_or m (too_big_message n)] else []) @ zString_parse cs d"
| "zString_parse (Email m # cs) d =
     (if \<not> emailRegex d then [message_or m invalid_email_message] else []) @ zString_parse cs d"


section \<open>The form: data model and schema\<close>

datatype key =
  Name | Email_key | Company | Phone | CompanySize | AutomationGoal | CurrentWorkflow | Urgency

text \<open>
  \<open>FormData\<close>. The type inferred from the schema lets \<open>phone\<close> be absent; the
  component initialises it to the empty string and only ever stores strings, and
  \<open>optional()\<close> hands a string to the checks it wraps, so the field is a string here.
\<close>

record FormData =
  name :: jsstring
  email :: jsstring
  company :: jsstring
  phone :: jsstring
  companySize :: jsstring
  automationGoal :: jsstring
  currentWorkflow :: jsstring
  urgency :: jsstring

text \<open>\<open>formData[key]\<close> and \<open>{ ...prev, [key]: value }\<close>.\<close>

fun get :: "FormData \<Rightarrow> key \<Rightarrow> jsstring" where
  "get fd Name = name fd"
| "get fd Email_key = email fd"
| "get fd Company = company fd"
| "get fd Phone = phone fd"
| "get fd CompanySize = companySize fd"
| "get fd AutomationGoal = automationGoal fd"
| "get fd CurrentWorkflow = currentWorkflow fd"
| "get fd Urgency = urgency fd"

fun put :: "key \<Rightarrow> jsstring \<Rightarrow> FormData \<Rightarrow> FormData" where
  "put Name v fd = fd\<lparr>name := v\<rparr>"
| "put Email_key v fd = fd\<lparr>email := v\<rparr>"
| "put Company v fd = fd\<lparr>company := v\<rparr>"
| "put Phone v fd = fd\<lparr>phone := v\<rparr>"
| "put CompanySize v fd = fd\<lparr>companySize := v\<rparr>"
| "put AutomationGoal v fd = fd\<lparr>automationGoal := v\<rparr>"
| "put CurrentWorkflow v fd = fd\<lparr>currentWorkflow := v\<rparr>"
| "put Urgency v fd = fd\<lparr>urgency := v\<rparr>"

text \<open>
  \<open>FormErrors\<close>: a partial record of messages. A key that is absent and a key set to
  \<open>undefined\<close> read the same, both are \<open>None\<close>.
\<close>

type_synonym FormErrors = "key \<Rightarrow> jsstring option"

text \<open>The chain of checks of each property of \<open>formSchema\<close>, in the order of the object.\<close>

fun schema :: "key \<Rightarrow> check list" where
  "schema Name = [Trim, Min 1 (Some (js ''Name is required'')), Max 100 None]"
| "schema Email_key = [Trim, Email (Some (js ''Please enter a valid email'')), Max 255 None]"
| "schema Company = [Trim, Min 1 (Some (js ''Company name is required'')), Max 100 None]"
| "schema Phone = [Trim, Max 20 None]"
| "schema CompanySize = [Min 1 (Some (js ''Please select company size''))]"
| "schema AutomationGoal =
     [Trim, Min 1 (Some (js ''Please describe what you want to automate'')), Max 500 None]"
| "schema CurrentWorkflow = [Min 1 (Some (js ''Please select an option''))]"
| "schema Urgency = [Min 1 (Some (js ''Please select urgency''))]"

definition shape :: "key list" where
  "shape = [Name, Email_key, Company, Phone, CompanySize, AutomationGoal, CurrentWorkflow, Urgency]"

text \<open>
  \<open>formSchema.safeParse\<close>: the issues of all properties, each with the key it belongs
  to (\<open>err.path[0]\<close>) and its message. The parse succeeds when there is no issue.
\<close>

definition formSchema_safeParse :: "FormData \<Rightarrow> (key \<times> jsstring) list" where
  "formSchema_safeParse fd =
     concat (map (\<lambda>k. map (\<lambda>m. (k, m)) (zString_parse (schema k) (get fd k))) shape)"

text \<open>The messages of the issues of one key, in the order of the issues.\<close>

definition messages_for :: "key \<Rightarrow> (key \<times> jsstring) list \<Rightarrow> jsstring list" where
  "messages_for k issues = map snd (filter (\<lambda>i. fst i = k) issues)"

text \<open>The values of the options of the three select elements (the labels are display text).\<close>

definition companySizeOptions :: "jsstring list" where
  "companySizeOptions = [js '''', js ''1-10'', js ''11-50'', js ''51-200'', js ''201-500'', js ''500+'']"

definition workflowOptions :: "jsstring list" where
  "workflowOptions =
     [js '''', js ''manually'', js ''using-tools'', js ''partially-automated'', js ''not-sure'']"

definition urgencyOptions :: "jsstring list" where
  "urgencyOptions = [js '''', js ''asap'', js ''this-month'', js ''exploring'']"


section \<open>The component\<close>

text \<open>
  The four state variables of \<open>LeadCaptureForm\<close>, and the delays of the timeouts that
  a suspended \<open>handleSubmit\<close> is waiting for.
\<close>

record state =
  formData :: FormData
  errors :: FormErrors
  isSubmitting :: bool
  isSubmitted :: bool
  timers :: "nat list"

definition initial :: state where
  "initial = \<lparr> formData = \<lparr> name = [], email = [], company = [], phone = [], companySize = [],
                             automationGoal = [], currentWorkflow = [], urgency = [] \<rparr>,
               errors = (\<lambda>k. None), isSubmitting = False, isSubmitted = False, timers = [] \<rparr>"

text \<open>A message is truthy when it is present and not the empty string.\<close>

definition truthy :: "jsstring option \<Rightarrow> bool" where
  "truthy m = (case m of None \<Rightarrow> False | Some x \<Rightarrow> x \<noteq> [])"

definition handleChange :: "key \<Rightarrow> jsstring \<Rightarrow> state \<Rightarrow> state" where
  "handleChange k v s =
     (let s1 = s\<lparr>formData := put k v (formData s)\<rparr>
      in if truthy (errors s k) then s1\<lparr>errors := (errors s1)(k := None)\<rparr> else s1)"

definition phoneChar :: "16 word \<Rightarrow> bool" where
  \<comment> \<open>the characters that \<^verbatim>\<open>[^\d+\-\s()]\<close> does not match\<close>
  "phoneChar c \<longleftrightarrow> isDigit c \<or> c = 0x2B \<or> c = 0x2D \<or> isWhiteSpace c \<or> c = 0x28 \<or> c = 0x29"

definition formatPhoneNumber :: "jsstring \<Rightarrow> jsstring" where
  "formatPhoneNumber v = (let cleaned = filter phoneChar v in take 20 cleaned)"

definition handlePhoneChange :: "jsstring \<Rightarrow> state \<Rightarrow> state" where
  "handlePhoneChange v s =
     (let formatted = formatPhoneNumber v
      in s\<lparr>formData := (formData s)\<lparr>phone := formatted\<rparr>\<rparr>)"

text \<open>
  \<open>handleSubmit\<close> up to the point where it returns or suspends at \<open>await\<close>. A
  suspension adds the delay of its timeout to \<open>timers\<close>; \<open>handleSubmit_resume\<close> is the
  rest of the function, run when the timeout fires.
\<close>

definition fieldErrors_of :: "(key \<times> jsstring) list \<Rightarrow> FormErrors" where
  "fieldErrors_of issues = fold (\<lambda>(field, message) fe. fe(field \<mapsto> message)) issues (\<lambda>k. None)"

definition handleSubmit :: "state \<Rightarrow> state" where
  "handleSubmit s =
     (let s1 = s\<lparr>isSubmitting := True\<rparr>;
          s2 = s1\<lparr>errors := (\<lambda>k. None)\<rparr>;
          result = formSchema_safeParse (formData s)
      in if result \<noteq> []
         then (let fieldErrors = fieldErrors_of result;
                   s3 = s2\<lparr>errors := fieldErrors\<rparr>
               in s3\<lparr>isSubmitting := False\<rparr>)
         else s2\<lparr>timers := timers s2 @ [1200]\<rparr>)"

definition handleSubmit_resume :: "state \<Rightarrow> state" where
  "handleSubmit_resume s = (let s1 = s\<lparr>isSubmitting := False\<rparr> in s1\<lparr>isSubmitted := True\<rparr>)"

text \<open>
  The events the rendered component can receive. Once \<open>isSubmitted\<close> holds the
  component renders the confirmation view in place of the form, so no input or form
  event reaches a handler any more. Seven inputs are wired to \<open>handleChange\<close> under
  their own name; the phone input is wired to \<open>handlePhoneChange\<close>. The submit button
  is disabled while \<open>isSubmitting\<close> holds; the model does not rely on that and lets a
  submit event arrive whenever the form is rendered. A timeout fires in the order it
  was set.
\<close>

datatype event = Change key jsstring | PhoneChange jsstring | Submit | Timeout

fun step :: "event \<Rightarrow> state \<Rightarrow> state option" where
  "step (Change k v) s =
     (if isSubmitted s \<or> k = Phone then None else Some (handleChange k v s))"
| "step (PhoneChange v) s =
     (if isSubmitted s then None else Some (handlePhoneChange v s))"
| "step Submit s = (if isSubmitted s then None else Some (handleSubmit s))"
| "step Timeout s =
     (case timers s of [] \<Rightarrow> None | t # ts \<Rightarrow> Some (handleSubmit_resume (s\<lparr>timers := ts\<rparr>)))"

fun run :: "event list \<Rightarrow> state \<Rightarrow> state option" where
  "run [] s = Some s"
| "run (e # es) s = (case step e s of None \<Rightarrow> None | Some s' \<Rightarrow> run es s')"



section \<open>Reference notions for email addresses\<close>

text \<open>
  Neither definition of this section is part of the program; the program's test is
  \<open>emailRegex\<close>. They are what the email rule is compared with.

  \<open>address_shape\<close> describes an address by its parts: a local part, \<open>@\<close>, one or
  more labels each closed by a dot, and a final label. The local part consists of
  letters, digits and \<open>_ ' + - .\<close>, does not begin with a dot, does not end in a dot
  or an apostrophe and has no two dots in a row. A label begins with a letter or digit
  and goes on with letters, digits and hyphens. The final label has two or more
  letters.
\<close>

definition address_shape :: "jsstring \<Rightarrow> bool" where
  "address_shape s \<longleftrightarrow>
     (\<exists>l ls t.
        s = l @ [0x40] @ concat (map (\<lambda>p. p @ [0x2E]) ls) @ t \<and>
        l \<noteq> [] \<and>
        (\<forall>c \<in> set l. isAlnum c \<or> c = 0x5F \<or> c = 0x27 \<or> c = 0x2B \<or> c = 0x2D \<or> c = 0x2E) \<and>
        hd l \<noteq> 0x2E \<and> last l \<noteq> 0x2E \<and> last l \<noteq> 0x27 \<and>
        \<not> sublist [0x2E, 0x2E] l \<and>
        ls \<noteq> [] \<and>
        (\<forall>p \<in> set ls. p \<noteq> [] \<and> isAlnum (hd p) \<and> (\<forall>c \<in> set p. isAlnum c \<or> c = 0x2D)) \<and>
        2 \<le> length t \<and> (\<forall>c \<in> set t. isAlpha c))"

text \<open>
  The well-formed addresses of RFC 5322 (section 3.4.1) in their plain form: a dot-atom,
  \<open>@\<close>, a dot-atom, where a dot-atom is one or more non-empty runs of \<open>atext\<close>
  characters separated by single dots. (The RFC also admits quoted local parts and
  domain literals; they are not needed here.)
\<close>

definition atext :: "16 word \<Rightarrow> bool" where
  "atext c \<longleftrightarrow> isAlnum c \<or>
     c = 0x21 \<or> c = 0x23 \<or> c = 0x24 \<or> c = 0x25 \<or> c = 0x26 \<or> c = 0x27 \<or> c = 0x2A \<or>
     c = 0x2B \<or> c = 0x2D \<or> c = 0x2F \<or> c = 0x3D \<or> c = 0x3F \<or> c = 0x5E \<or> c = 0x5F \<or>
     c = 0x60 \<or> c = 0x7B \<or> c = 0x7C \<or> c = 0x7D \<or> c = 0x7E"

definition dot_atom :: "jsstring \<Rightarrow> bool" where
  "dot_atom s \<longleftrightarrow> list_all (\<lambda>p. p \<noteq> [] \<and> list_all atext p) (splitOn 0x2E s)"

definition rfc5322_addr_spec :: "jsstring \<Rightarrow> bool" where
  "rfc5322_addr_spec s \<longleftrightarrow>
     (let l = takeWhile (\<lambda>c. c \<noteq> 0x40) s; r = dropWhile (\<lambda>c. c \<noteq> 0x40) s
      in r \<noteq> [] \<and> dot_atom l \<and> dot_atom (tl r))"


section \<open>Example inputs\<close>

text \<open>The valid lead of the specification's testable properties.\<close>

definition jane_doe :: FormData where
  "jane_doe = \<lparr> name = js ''Jane Doe'', email = js ''jane@acme.com'', company = js ''Acme'',
                phone = [], companySize = js ''11-50'', automationGoal = js ''Automate invoicing'',
                currentWorkflow = js ''manually'', urgency = js ''asap'' \<rparr>"

text \<open>The same lead with a company size that is not among the options.\<close>

definition odd_size :: FormData where
  "odd_size = jane_doe\<lparr>companySize := js ''banana''\<rparr>"

text \<open>
  A form whose text fields hold white space only, and the valid lead with 150 spaces
  after the name.
\<close>

definition blank_fields :: FormData where
  "blank_fields = jane_doe\<lparr>name := js ''   '', email := js '' '', company := [0x9, 0x20],
                             automationGoal := [0xA0, 0xA]\<rparr>"

definition padded_name :: FormData where
  "padded_name = jane_doe\<lparr>name := js ''Jane Doe'' @ replicate 150 0x20\<rparr>"

text \<open>An address with a percent sign in its local part.\<close>

definition percent_address :: jsstring where
  "percent_address = js ''user%tag@example.com''"



text \<open>The component in its editing state, holding a given form.\<close>

definition editing :: "FormData \<Rightarrow> state" where
  "editing fd = initial\<lparr>formData := fd\<rparr>"

text \<open>The valid lead without a name and without an urgency.\<close>

definition missing_fields :: FormData where
  "missing_fields = jane_doe\<lparr>name := [], urgency := []\<rparr>"

text \<open>Filling in the valid lead field by field, submitting it, and the timeout firing.\<close>

definition jane_events :: "event list" where
  "jane_events =
     [Change Name (js ''Jane Doe''), Change Email_key (js ''jane@acme.com''),
      Change Company (js ''Acme''), Change CompanySize (js ''11-50''),
      Change AutomationGoal (js ''Automate invoicing''), Change CurrentWorkflow (js ''manually''),
      Change Urgency (js ''asap''), Submit, Timeout]"


text \<open>A phone input, then a submission of the otherwise empty form.\<close>

definition phone_events :: "event list" where
  "phone_events = [PhoneChange (js ''+1 (555) 123-4567 ext. 890123''), Submit]"


section \<open>Invariants\<close>

text \<open>What holds of the phone in every state the component reaches.\<close>

definition phone_inv :: "state \<Rightarrow> bool" where
  "phone_inv s \<longleftrightarrow> (\<forall>c \<in> set (phone (formData s)). phoneChar c) \<and>
     length (phone (formData s)) \<le> 20 \<and> errors s Phone = None"


section \<open>Strings: trimming\<close>

lemma length_trim: "length (trim s) \<le> length s"
proof -
  let ?m = "dropWhile isWhiteSpace s"
  have "length (dropWhile isWhiteSpace (rev ?m)) \<le> length (rev ?m)"
    by (rule length_dropWhile_le)
  then have "length (trim s) \<le> length ?m"
    by (simp add: trim_def)
  also have "\<dots> \<le> length s"
    by (rule length_dropWhile_le)
  finally show ?thesis .
qed

lemma trim_Nil: "trim [] = []"
  by (simp add: trim_def)

lemma dropWhile_all: "\<forall>c\<in>set s. P c \<Longrightarrow> dropWhile P s = []"
  by (induction s) auto

lemma trim_all_ws: "\<forall>c\<in>set s. isWhiteSpace c \<Longrightarrow> trim s = []"
  by (simp add: trim_def dropWhile_all)

lemma trim_id: "s \<noteq> [] \<Longrightarrow> \<not> isWhiteSpace (hd s) \<Longrightarrow> \<not> isWhiteSpace (last s) \<Longrightarrow> trim s = s"
proof -
  assume a: "s \<noteq> []" "\<not> isWhiteSpace (hd s)" "\<not> isWhiteSpace (last s)"
  have 1: "dropWhile isWhiteSpace s = s" using a by (simp add: dropWhile_eq_self_iff)
  have "hd (rev s) = last s" using a by (simp add: hd_rev)
  then have 2: "dropWhile isWhiteSpace (rev s) = rev s" using a by (simp add: dropWhile_eq_self_iff)
  show ?thesis by (simp add: trim_def 1 2)
qed

lemma trim_decomp:
  "\<exists>a b. s = a @ trim s @ b \<and> (\<forall>c\<in>set a. isWhiteSpace c) \<and> (\<forall>c\<in>set b. isWhiteSpace c)"
proof -
  let ?a = "takeWhile isWhiteSpace s"
  let ?m = "dropWhile isWhiteSpace s"
  let ?b = "rev (takeWhile isWhiteSpace (rev ?m))"
  have "rev ?m = takeWhile isWhiteSpace (rev ?m) @ dropWhile isWhiteSpace (rev ?m)" by simp
  then have "?m = rev (dropWhile isWhiteSpace (rev ?m)) @ ?b"
    by (metis rev_append rev_rev_ident)
  then have m: "?m = trim s @ ?b" by (simp add: trim_def)
  have "s = ?a @ ?m" by simp
  then have "s = ?a @ trim s @ ?b" using m by simp
  moreover have "\<forall>c\<in>set ?a. isWhiteSpace c" by (meson set_takeWhileD)
  moreover have "\<forall>c\<in>set ?b. isWhiteSpace c" by (metis set_rev set_takeWhileD)
  ultimately show ?thesis by blast
qed

lemma set_trim: "set (trim s) \<subseteq> set s"
  using trim_decomp[of s] by (metis Un_upper1 Un_upper2 set_append subset_trans)

section \<open>The email pattern\<close>

lemma emailRegex_Nil: "\<not> emailRegex []"
  by (simp add: emailRegex_def localPart_def)

lemma emailRegex_at: "emailRegex s \<Longrightarrow> 0x40 \<in> set s"
  by (auto simp: emailRegex_def Let_def)

lemma length_splitOn: "length (splitOn c xs) = Suc (length (filter (\<lambda>x. x = c) xs))"
  by (induction xs) (auto split: list.splits)

lemma splitOn_neq_Nil: "splitOn c xs \<noteq> []"
  by (induction xs) (auto split: list.splits)

lemma splitOn_single_Nil: "splitOn c xs = [[]] \<Longrightarrow> xs = []"
  using splitOn_neq_Nil[of c "tl xs"] by (cases xs) (auto split: list.splits if_splits)

lemma splitOn_last: "last (splitOn c xs) \<noteq> [] \<Longrightarrow> xs \<noteq> [] \<and> last xs = last (last (splitOn c xs))"
proof (induction xs)
  case Nil then show ?case by simp
next
  case (Cons x xs)
  obtain p ps where sp: "splitOn c xs = p # ps"
    using splitOn_neq_Nil[of c xs] by (cases "splitOn c xs") auto
  show ?case
  proof (cases "x = c")
    case True
    then have "last (splitOn c (x # xs)) = last (splitOn c xs)"
      using sp by simp
    with Cons show ?thesis by auto
  next
    case False
    show ?thesis
    proof (cases ps)
      case Nil
      with sp False have l: "last (splitOn c (x # xs)) = x # p" by simp
      show ?thesis
      proof (cases "p = []")
        case True
        with sp Nil have "xs = []" by (simp add: splitOn_single_Nil)
        with l True show ?thesis by simp
      next
        case False
        with sp Nil Cons.IH have "xs \<noteq> [] \<and> last xs = last p" by simp
        with l False show ?thesis by simp
      qed
    next
      case (Cons q qs)
      with sp False have "last (splitOn c (x # xs)) = last (splitOn c xs)" by simp
      with Cons.IH Cons.prems show ?thesis by auto
    qed
  qed
qed

lemma domainPart_dot: "domainPart d \<Longrightarrow> 0x2E \<in> set d"
proof -
  assume "domainPart d"
  then have "2 \<le> length (splitOn 0x2E d)" by (simp add: domainPart_def Let_def)
  then have "filter (\<lambda>x. x = 0x2E) d \<noteq> []" by (auto simp: length_splitOn)
  then show ?thesis by (metis (mono_tags, lifting) filter_False)
qed

lemma domainPart_last: "domainPart d \<Longrightarrow> d \<noteq> [] \<and> isAlpha (last d)"
proof -
  assume d: "domainPart d"
  let ?t = "last (splitOn 0x2E d)"
  from d have t: "tld ?t" by (simp add: domainPart_def Let_def)
  then have ne: "?t \<noteq> []" by (auto simp: tld_def)
  from t ne have "isAlpha (last ?t)" by (simp add: tld_def list_all_iff)
  with splitOn_last[OF ne] show ?thesis by simp
qed

lemma not_ws_alpha: "isAlpha c \<Longrightarrow> \<not> isWhiteSpace c"
  unfolding isAlpha_def isWhiteSpace_def isLineTerminator_def
  by (auto simp: word_le_def word_less_def)

lemma not_ws_local: "localChar c \<or> localLast c \<Longrightarrow> \<not> isWhiteSpace c"
  unfolding localChar_def localLast_def isAlnum_def isDigit_def isAlpha_def isWhiteSpace_def isLineTerminator_def
  by (auto simp: word_le_def)


lemma emailRegex_trim: "emailRegex s \<Longrightarrow> trim s = s"
proof -
  assume e: "emailRegex s"
  let ?l = "takeWhile (\<lambda>c. c \<noteq> 0x40) s"
  let ?r = "dropWhile (\<lambda>c. c \<noteq> 0x40) s"
  from e have l: "localPart ?l" and r: "?r \<noteq> []" and d: "domainPart (tl ?r)"
    by (simp_all add: emailRegex_def Let_def)
  from l have lne: "?l \<noteq> []" by (simp add: localPart_def)
  then have sne: "s \<noteq> []" by auto
  have "localChar (hd ?l) \<or> localLast (hd ?l)"
  proof (cases "butlast ?l")
    case Nil
    with lne have "hd ?l = last ?l" by (metis append_butlast_last_id append_Nil list.sel(1))
    with l show ?thesis by (simp add: localPart_def)
  next
    case (Cons a as)
    with lne have "hd ?l = a" by (metis append_butlast_last_id hd_append2 list.sel(1) list.distinct(1))
    with l Cons show ?thesis by (simp add: localPart_def)
  qed
  moreover have "hd s = hd ?l" using lne by (metis hd_append2 takeWhile_dropWhile_id)
  ultimately have h: "\<not> isWhiteSpace (hd s)" using not_ws_local by auto
  have "s = ?l @ hd ?r # tl ?r" using r by simp
  moreover from domainPart_last[OF d] have dl: "tl ?r \<noteq> []" "isAlpha (last (tl ?r))" by simp_all
  ultimately have "last s = last (tl ?r)" by (metis last_ConsR last_appendR list.distinct(1))
  with dl have t: "\<not> isWhiteSpace (last s)" by (simp add: not_ws_alpha)
  from sne h t show ?thesis by (rule trim_id)
qed

section \<open>Issues and recorded messages\<close>

lemma messages_for_append: "messages_for k (xs @ ys) = messages_for k xs @ messages_for k ys"
  by (simp add: messages_for_def)

lemma messages_for_tag: "messages_for k (map (\<lambda>m. (k', m)) ms) = (if k' = k then ms else [])"
  by (induction ms) (auto simp: messages_for_def)

lemma messages_for_parse: "messages_for k (formSchema_safeParse fd) = zString_parse (schema k) (get fd k)"
  unfolding formSchema_safeParse_def shape_def
  by (cases k) (simp_all only: list.map concat.simps messages_for_append messages_for_tag key.distinct simp_thms if_True if_False append_Nil append_Nil2 messages_for_def[of _ "[]"] filter.simps)

lemma fold_record: "fold (\<lambda>(field, message) fe. fe(field \<mapsto> message)) issues fe0 k =
    (if messages_for k issues = [] then fe0 k else Some (last (messages_for k issues)))"
  by (induction issues arbitrary: fe0) (auto simp: messages_for_def)

lemma fieldErrors_of_last: "fieldErrors_of issues k =
    (if messages_for k issues = [] then None else Some (last (messages_for k issues)))"
  by (simp add: fieldErrors_of_def fold_record)

lemma errors_handleSubmit: "errors (handleSubmit s) k =
   (let ms = zString_parse (schema k) (get (formData s) k)
    in if ms = [] then None else Some (last ms))"
proof (cases "formSchema_safeParse (formData s) = []")
  case True
  then have "messages_for k (formSchema_safeParse (formData s)) = []" by (simp add: messages_for_def)
  then have "zString_parse (schema k) (get (formData s) k) = []" by (simp add: messages_for_parse)
  with True show ?thesis by (simp add: handleSubmit_def Let_def)
next
  case False
  then have "errors (handleSubmit s) k = fieldErrors_of (formSchema_safeParse (formData s)) k"
    by (simp add: handleSubmit_def Let_def)
  then show ?thesis by (simp add: fieldErrors_of_last messages_for_parse Let_def)
qed

lemma safeParse_Nil_iff: "formSchema_safeParse fd = [] \<longleftrightarrow> (\<forall>k. zString_parse (schema k) (get fd k) = [])"
proof
  assume "formSchema_safeParse fd = []"
  then have "\<forall>k. messages_for k (formSchema_safeParse fd) = []" by (simp add: messages_for_def)
  then show "\<forall>k. zString_parse (schema k) (get fd k) = []" by (simp add: messages_for_parse)
next
  assume a: "\<forall>k. zString_parse (schema k) (get fd k) = []"
  show "formSchema_safeParse fd = []"
    unfolding formSchema_safeParse_def shape_def using a by simp
qed


section \<open>Phone formatting\<close>

lemmas char_defs = isWhiteSpace_def isLineTerminator_def isDigit_def isAlpha_def isAlnum_def
  localChar_def localLast_def labelChar_def phoneChar_def

lemma formatPhoneNumber_subseq: "subseq (formatPhoneNumber v) v"
proof -
  have "subseq (take 20 (filter phoneChar v)) (filter phoneChar v)"
    by (rule prefix_imp_subseq) (rule take_is_prefix)
  then have "subseq (take 20 (filter phoneChar v)) v"
    by (rule subseq_order.trans) (rule subseq_filter_left)
  then show ?thesis by (simp add: formatPhoneNumber_def)
qed

lemma formatPhoneNumber_chars: "c \<in> set (formatPhoneNumber v) \<Longrightarrow> phoneChar c"
proof -
  assume "c \<in> set (formatPhoneNumber v)"
  then have "c \<in> set (take 20 (filter phoneChar v))" by (simp add: formatPhoneNumber_def)
  then have "c \<in> set (filter phoneChar v)" by (rule in_set_takeD)
  then show ?thesis by simp
qed

lemma formatPhoneNumber_length: "length (formatPhoneNumber v) = min 20 (length (filter phoneChar v))"
  by (simp add: formatPhoneNumber_def)

text \<open>
  Claim C6. For every input string, \<open>formatPhoneNumber\<close> returns a subsequence of
  the input: the first 20 of its characters that are digits, \<open>+\<close>, \<open>-\<close>, white
  space or parentheses, in their order. The result contains no other character and is
  never longer than 20.
\<close>

theorem formatPhoneNumber_filters:
  "subseq (formatPhoneNumber v) v \<and>
   prefix (formatPhoneNumber v) (filter phoneChar v) \<and>
   (\<forall>c \<in> set (formatPhoneNumber v).
      isDigit c \<or> c = 0x2B \<or> c = 0x2D \<or> isWhiteSpace c \<or> c = 0x28 \<or> c = 0x29) \<and>
   length (formatPhoneNumber v) = min 20 (length (filter phoneChar v)) \<and>
   length (formatPhoneNumber v) \<le> 20"
proof -
  have 1: "prefix (formatPhoneNumber v) (filter phoneChar v)"
    unfolding formatPhoneNumber_def Let_def by (rule take_is_prefix)
  have 2: "\<forall>c \<in> set (formatPhoneNumber v).
      isDigit c \<or> c = 0x2B \<or> c = 0x2D \<or> isWhiteSpace c \<or> c = 0x28 \<or> c = 0x29"
    using formatPhoneNumber_chars[of _ v] unfolding phoneChar_def by blast
  have 3: "length (formatPhoneNumber v) \<le> 20"
    by (simp add: formatPhoneNumber_length)
  from formatPhoneNumber_subseq 1 2 formatPhoneNumber_length 3 show ?thesis
    by blast
qed


theorem formatPhoneNumber_filters_witness:
  "formatPhoneNumber (js ''+1 (555) 123-4567 ext. 890123'') = js ''+1 (555) 123-4567  8'' \<and>
   length (js ''+1 (555) 123-4567  8'') = 20 \<and>
   list_all (\<lambda>c. isDigit c \<or> c = 0x2B \<or> c = 0x2D \<or> isWhiteSpace c \<or> c = 0x28 \<or> c = 0x29)
     (js ''+1 (555) 123-4567  8'') \<and>
   subseq (js ''+1 (555) 123-4567  8'') (js ''+1 (555) 123-4567 ext. 890123'')"
proof -
  have e: "formatPhoneNumber (js ''+1 (555) 123-4567 ext. 890123'') = js ''+1 (555) 123-4567  8''"
    by (simp add: formatPhoneNumber_def js_def char_defs)
  have l: "length (js ''+1 (555) 123-4567  8'') = 20"
    by (simp add: js_def)
  show ?thesis
    using formatPhoneNumber_filters [of "js ''+1 (555) 123-4567 ext. 890123''"] l
    unfolding e list_all_iff by blast
qed



section \<open>Validation of the fields\<close>

lemmas email_defs = emailRegex_def localPart_def domainPart_def label_def tld_def

lemma jane_email: "emailRegex (js ''jane@acme.com'')"
  by (simp add: js_def email_defs char_defs)

lemma jane_doe_valid: "formSchema_safeParse jane_doe = []"
  unfolding safeParse_Nil_iff
proof
  fix k show "zString_parse (schema k) (get jane_doe k) = []"
    by (cases k) (simp_all add: jane_doe_def emailRegex_trim[OF jane_email] jane_email message_or_def,
        simp_all add: js_def trim_def char_defs)
qed

lemma parse_trim_min_max:
  "zString_parse [Trim, Min a (Some m), Max b None] v =
     (if length (trim v) < a then [m] else []) @
     (if b < length (trim v) then [too_big_message b] else [])"
  by (simp add: message_or_def)

lemma parse_email:
  "zString_parse (schema Email_key) v =
     (if \<not> emailRegex (trim v) then [js ''Please enter a valid email''] else []) @
     (if 255 < length (trim v) then [too_big_message 255] else [])"
  by (simp add: message_or_def)


lemma parse_select: "zString_parse [Min 1 (Some m)] v = (if v = [] then [m] else [])"
  by (cases v) (simp_all add: message_or_def)

lemma ws_not_at: "isWhiteSpace c \<Longrightarrow> c \<noteq> 0x40"
  by (auto simp: char_defs)

lemma email_accepted_dot:
  assumes "emailRegex (trim v)"
  shows "0x2E \<in> set (dropWhile (\<lambda>c. c \<noteq> 0x40) v)"
proof -
  let ?P = "\<lambda>c::16 word. c \<noteq> 0x40"
  let ?t = "trim v"
  from assms have "domainPart (tl (dropWhile ?P ?t))" by (simp add: emailRegex_def Let_def)
  then have "0x2E \<in> set (tl (dropWhile ?P ?t))" by (rule domainPart_dot)
  then have d: "0x2E \<in> set (dropWhile ?P ?t)" by (metis list.sel(2) list.set_sel(2))
  from trim_decomp[of v] obtain a b where
    v: "v = a @ ?t @ b" and a: "\<forall>c\<in>set a. isWhiteSpace c" by blast
  from a have "\<forall>c\<in>set a. ?P c" using ws_not_at by blast
  then have 1: "dropWhile ?P (a @ ?t @ b) = dropWhile ?P (?t @ b)"
    by (simp add: dropWhile_append)
  from emailRegex_at[OF assms] have "0x40 \<in> set ?t" .
  then have 2: "dropWhile ?P (?t @ b) = dropWhile ?P ?t @ b"
    by (rule dropWhile_append1) simp
  have "dropWhile ?P v = dropWhile ?P ?t @ b"
    using 1 2 v by metis
  with d show ?thesis by simp
qed

text \<open>
  Claim C1, as stated, fails: the validation accepts a company size that is not among
  the options. The lead \<open>odd_size\<close> has the company size \<open>banana\<close>; it produces no
  issue for that field, and none at all.
\<close>

theorem select_accepts_other_value:
  "messages_for CompanySize (formSchema_safeParse odd_size) = [] \<and>
   formSchema_safeParse odd_size = [] \<and>
   companySize odd_size = js ''banana'' \<and>
   companySize odd_size \<notin> set companySizeOptions"
proof -
  have "formSchema_safeParse odd_size = []"
    unfolding safeParse_Nil_iff
  proof
    fix k
    have "k \<noteq> CompanySize \<Longrightarrow> get odd_size k = get jane_doe k"
      by (cases k) (simp_all add: odd_size_def)
    moreover have "zString_parse (schema k) (get jane_doe k) = []"
      using jane_doe_valid by (simp add: safeParse_Nil_iff)
    moreover have "zString_parse (schema CompanySize) (get odd_size CompanySize) = []"
      by (simp add: odd_size_def js_def)
    ultimately show "zString_parse (schema k) (get odd_size k) = []"
      by (cases "k = CompanySize") simp_all
  qed
  moreover have "companySize odd_size = js ''banana''"
    by (simp add: odd_size_def)
  moreover have "js ''banana'' \<notin> set companySizeOptions"
    by (simp add: companySizeOptions_def js_def)
  ultimately show ?thesis by (simp add: messages_for_def)
qed

text \<open>
  Claim C1, amended. The validation accepts \<open>companySize\<close>, \<open>currentWorkflow\<close> and
  \<open>urgency\<close> exactly when they are not the empty string: each of the five, four and
  three option values that are not empty is accepted, and only the empty string is
  rejected.
\<close>

theorem select_rules:
  "(messages_for CompanySize (formSchema_safeParse fd) = [] \<longleftrightarrow> companySize fd \<noteq> []) \<and>
   (messages_for CurrentWorkflow (formSchema_safeParse fd) = [] \<longleftrightarrow> currentWorkflow fd \<noteq> []) \<and>
   (messages_for Urgency (formSchema_safeParse fd) = [] \<longleftrightarrow> urgency fd \<noteq> []) \<and>
   (companySize fd \<in> set (tl companySizeOptions) \<longrightarrow>
      messages_for CompanySize (formSchema_safeParse fd) = []) \<and>
   (currentWorkflow fd \<in> set (tl workflowOptions) \<longrightarrow>
      messages_for CurrentWorkflow (formSchema_safeParse fd) = []) \<and>
   (urgency fd \<in> set (tl urgencyOptions) \<longrightarrow>
      messages_for Urgency (formSchema_safeParse fd) = [])"
proof -
  have 1: "messages_for CompanySize (formSchema_safeParse fd) = [] \<longleftrightarrow> companySize fd \<noteq> []"
    by (simp add: messages_for_parse parse_select)
  have 2: "messages_for CurrentWorkflow (formSchema_safeParse fd) = [] \<longleftrightarrow> currentWorkflow fd \<noteq> []"
    by (simp add: messages_for_parse parse_select)
  have 3: "messages_for Urgency (formSchema_safeParse fd) = [] \<longleftrightarrow> urgency fd \<noteq> []"
    by (simp add: messages_for_parse parse_select)
  have 4: "companySize fd \<in> set (tl companySizeOptions) \<Longrightarrow> companySize fd \<noteq> []"
    by (auto simp: companySizeOptions_def js_def)
  have 5: "currentWorkflow fd \<in> set (tl workflowOptions) \<Longrightarrow> currentWorkflow fd \<noteq> []"
    by (auto simp: workflowOptions_def js_def)
  have 6: "urgency fd \<in> set (tl urgencyOptions) \<Longrightarrow> urgency fd \<noteq> []"
    by (auto simp: urgencyOptions_def js_def)
  from 1 2 3 4 5 6 show ?thesis by blast
qed

theorem select_rules_witness:
  "companySize jane_doe \<in> set (tl companySizeOptions) \<and>
   currentWorkflow jane_doe \<in> set (tl workflowOptions) \<and>
   urgency jane_doe \<in> set (tl urgencyOptions) \<and>
   messages_for CompanySize (formSchema_safeParse jane_doe) = [] \<and>
   messages_for CurrentWorkflow (formSchema_safeParse jane_doe) = [] \<and>
   messages_for Urgency (formSchema_safeParse jane_doe) = []"
proof -
  have 1: "companySize jane_doe \<in> set (tl companySizeOptions)"
    by (simp add: jane_doe_def companySizeOptions_def)
  have 2: "currentWorkflow jane_doe \<in> set (tl workflowOptions)"
    by (simp add: jane_doe_def workflowOptions_def)
  have 3: "urgency jane_doe \<in> set (tl urgencyOptions)"
    by (simp add: jane_doe_def urgencyOptions_def)
  from 1 2 3 select_rules [of jane_doe] show ?thesis by blast
qed

subsection \<open>The email pattern and the shape of an address\<close>

lemma hasDotDot_sublist: "hasDotDot s \<longleftrightarrow> sublist [0x2E, 0x2E] s"
proof (induction s rule: hasDotDot.induct)
  case (1 a b cs)
  have "sublist [0x2E, 0x2E] (a # b # cs) \<longleftrightarrow>
        prefix [0x2E, 0x2E] (a # b # cs) \<or> sublist [0x2E, 0x2E] (b # cs)"
    by (rule sublist_Cons_right)
  with 1 show ?case by auto
qed (simp_all add: sublist_Cons_right)

lemma hasDotDot_Cons: "x \<noteq> 0x2E \<Longrightarrow> hasDotDot (x # zs) = hasDotDot zs"
  by (cases zs) simp_all

lemma hasDotDot_nodot: "0x2E \<notin> set xs \<Longrightarrow> \<not> hasDotDot xs"
  by (induction xs) (simp_all add: hasDotDot_Cons)

lemma hasDotDot_append_nodot: "0x2E \<notin> set p \<Longrightarrow> hasDotDot (p @ ys) = hasDotDot ys"
  by (induction p) (simp_all add: hasDotDot_Cons)

lemma hasDotDot_dot: "ys \<noteq> [] \<Longrightarrow> hd ys \<noteq> 0x2E \<Longrightarrow> hasDotDot (0x2E # ys) = hasDotDot ys"
  by (cases ys) simp_all

lemma hasDotDot_prefix: "hasDotDot l \<Longrightarrow> hasDotDot (l @ ys)"
  unfolding hasDotDot_sublist by (metis sublist_appendI sublist_append_rightI sublist_order.order_trans)

lemma hasDotDot_sep: "c \<noteq> 0x2E \<Longrightarrow> hasDotDot (l @ c # d) \<longleftrightarrow> hasDotDot l \<or> hasDotDot d"
  by (induction l rule: hasDotDot.induct) (simp_all add: hasDotDot_Cons)

lemma splitOn_nodot: "c \<notin> set t \<Longrightarrow> splitOn c t = [t]"
  by (induction t) auto

lemma splitOn_label: "c \<notin> set p \<Longrightarrow> splitOn c (p @ c # rest) = p # splitOn c rest"
  by (induction p) auto

lemma splitOn_join:
  "\<forall>p \<in> set ls. c \<notin> set p \<Longrightarrow> c \<notin> set t \<Longrightarrow>
   splitOn c (concat (map (\<lambda>p. p @ [c]) ls) @ t) = ls @ [t]"
  by (induction ls) (simp_all add: splitOn_nodot splitOn_label)

lemma join_splitOn:
  "concat (map (\<lambda>p. p @ [c]) (butlast (splitOn c xs))) @ last (splitOn c xs) = xs"
proof (induction xs)
  case Nil
  show ?case by simp
next
  case (Cons x xs)
  obtain p ps where sp: "splitOn c xs = p # ps"
    using splitOn_neq_Nil[of c xs] by (cases "splitOn c xs") auto
  show ?case
  proof (cases "x = c")
    case True
    with sp Cons show ?thesis by simp
  next
    case False
    with sp Cons show ?thesis by (cases ps) simp_all
  qed
qed

lemma splitOn_parts_nodot: "p \<in> set (splitOn c xs) \<Longrightarrow> c \<notin> set p"
proof (induction xs arbitrary: p)
  case Nil
  then show ?case by simp
next
  case (Cons x xs)
  obtain q qs where sp: "splitOn c xs = q # qs"
    using splitOn_neq_Nil[of c xs] by (cases "splitOn c xs") auto
  show ?case
  proof (cases "x = c")
    case True
    with Cons show ?thesis by auto
  next
    case False
    with Cons.prems sp have "p = x # q \<or> p \<in> set qs" by simp
    with Cons.IH sp False show ?thesis by auto
  qed
qed

lemma alnum_plain: "isAlnum c \<Longrightarrow> c \<noteq> 0x2E \<and> c \<noteq> 0x27 \<and> c \<noteq> 0x40 \<and> c \<noteq> 0x2D \<and> \<not> isLineTerminator c"
  unfolding isAlnum_def isAlpha_def isDigit_def isLineTerminator_def
  by (auto simp: word_le_def)

lemma alpha_alnum: "isAlpha c \<Longrightarrow> isAlnum c"
  by (simp add: isAlnum_def)

lemma localChar_plain: "localChar c \<Longrightarrow> c \<noteq> 0x40 \<and> \<not> isLineTerminator c"
  using alnum_plain[of c] unfolding localChar_def isLineTerminator_def by auto

lemma localLast_iff: "localLast c \<longleftrightarrow> localChar c \<and> c \<noteq> 0x2E \<and> c \<noteq> 0x27"
  using alnum_plain[of c] unfolding localChar_def localLast_def by auto

lemma labelChar_plain: "labelChar c \<Longrightarrow> c \<noteq> 0x2E \<and> c \<noteq> 0x40 \<and> \<not> isLineTerminator c"
  using alnum_plain[of c] unfolding labelChar_def isLineTerminator_def by auto

lemma localPart_iff:
  "localPart l \<longleftrightarrow> l \<noteq> [] \<and> (\<forall>c \<in> set l. localChar c) \<and> last l \<noteq> 0x2E \<and> last l \<noteq> 0x27"
proof (cases "l = []")
  case True
  then show ?thesis by (simp add: localPart_def)
next
  case False
  then have "set l = set (butlast l) \<union> {last l}"
    by (metis append_butlast_last_id list.simps(15) set_append empty_set Un_insert_right sup_bot_right)
  with False show ?thesis
    unfolding localPart_def list_all_iff localLast_iff by auto
qed

lemma label_iff:
  "label p \<longleftrightarrow> p \<noteq> [] \<and> isAlnum (hd p) \<and> (\<forall>c \<in> set p. isAlnum c \<or> c = 0x2D)"
  by (cases p) (auto simp: label_def list_all_iff labelChar_def)

lemma label_chars: "label p \<Longrightarrow> c \<in> set p \<Longrightarrow> labelChar c"
  by (cases p) (auto simp: label_def list_all_iff labelChar_def)

lemma label_nodot: "label p \<Longrightarrow> 0x2E \<notin> set p \<and> 0x40 \<notin> set p \<and> (\<forall>c \<in> set p. \<not> isLineTerminator c)"
  using label_chars[of p] labelChar_plain by blast

lemma tld_plain: "tld t \<Longrightarrow> t \<noteq> [] \<and> 0x2E \<notin> set t \<and> 0x40 \<notin> set t \<and> (\<forall>c \<in> set t. \<not> isLineTerminator c)"
  unfolding tld_def list_all_iff using alnum_plain alpha_alnum by auto

lemma domain_no_dotdot:
  assumes "\<forall>p \<in> set ls. p \<noteq> [] \<and> 0x2E \<notin> set p" and "t \<noteq> []" and "0x2E \<notin> set t"
  shows "concat (map (\<lambda>p. p @ [0x2E]) ls) @ t \<noteq> [] \<and>
         hd (concat (map (\<lambda>p. p @ [0x2E]) ls) @ t) \<noteq> 0x2E \<and>
         \<not> hasDotDot (concat (map (\<lambda>p. p @ [0x2E]) ls) @ t)"
  using assms(1)
proof (induction ls)
  case Nil
  from assms(2,3) have "hd t \<noteq> 0x2E" by (cases t) auto
  with assms(2,3) show ?case by (simp add: hasDotDot_nodot)
next
  case (Cons p ls)
  let ?d = "concat (map (\<lambda>p. p @ [0x2E]) ls) @ t"
  from Cons have ih: "?d \<noteq> []" "hd ?d \<noteq> 0x2E" "\<not> hasDotDot ?d" by simp_all
  from Cons.prems have p: "p \<noteq> []" "0x2E \<notin> set p" by simp_all
  then have hp: "hd p \<noteq> 0x2E" by (cases p) auto
  have "hasDotDot (p @ 0x2E # ?d) = hasDotDot (0x2E # ?d)"
    using p(2) by (rule hasDotDot_append_nodot)
  also have "\<dots> = hasDotDot ?d" using ih(1,2) by (rule hasDotDot_dot)
  finally have "\<not> hasDotDot (p @ 0x2E # ?d)" using ih(3) by simp
  moreover have "hd (p @ 0x2E # ?d) \<noteq> 0x2E" using p(1) hp by simp
  ultimately show ?case by simp
qed

lemma domain_chars:
  assumes "c \<in> set (concat (map (\<lambda>p. p @ [x]) ls) @ t)"
  shows "(\<exists>p \<in> set ls. c \<in> set p) \<or> c = x \<or> c \<in> set t"
  using assms by (induction ls) auto

lemma shape_imp_regex:
  assumes s: "s = l @ [0x40] @ concat (map (\<lambda>p. p @ [0x2E]) ls) @ t"
    and l: "localPart l" "hd l \<noteq> 0x2E" "\<not> hasDotDot l"
    and ls: "ls \<noteq> []" "\<forall>p \<in> set ls. label p"
    and t: "tld t"
  shows "emailRegex s"
proof -
  define d where "d = concat (map (\<lambda>p. p @ [0x2E]) ls) @ t"
  let ?P = "\<lambda>c::16 word. c \<noteq> 0x40"
  let ?L = "\<lambda>c. \<not> isLineTerminator c"
  from l(1) have lne: "l \<noteq> []" and lch: "\<forall>c \<in> set l. localChar c"
    by (simp_all add: localPart_iff)
  from lch have lat: "\<forall>c \<in> set l. ?P c" and llt: "\<forall>c \<in> set l. ?L c"
    using localChar_plain by blast+
  have sd: "s = l @ 0x40 # d" using s by (simp add: d_def)
  \<comment> \<open>the first character\<close>
  have 1: "\<not> (case s of [] \<Rightarrow> False | c # _ \<Rightarrow> c = 0x2E)"
    using lne l(2) unfolding sd by (cases l) simp_all
  \<comment> \<open>no two dots\<close>
  have dparts: "\<forall>p \<in> set ls. p \<noteq> [] \<and> 0x2E \<notin> set p"
  proof
    fix p assume "p \<in> set ls"
    with ls(2) have lp: "label p" by blast
    then have "p \<noteq> []" by (simp add: label_iff)
    with label_nodot[OF lp] show "p \<noteq> [] \<and> 0x2E \<notin> set p" by blast
  qed
  from tld_plain[OF t] have tp: "t \<noteq> []" "0x2E \<notin> set t" and tl: "\<forall>c \<in> set t. ?L c"
    by simp_all
  from domain_no_dotdot[OF dparts tp] have dd: "\<not> hasDotDot d" by (simp add: d_def)
  have nodd: "\<not> hasDotDot s"
    unfolding sd using l(3) dd by (simp add: hasDotDot_sep)
  have dl: "?L c" if "c \<in> set d" for c
  proof -
    from that have "(\<exists>p \<in> set ls. c \<in> set p) \<or> c = 0x2E \<or> c \<in> set t"
      unfolding d_def by (rule domain_chars)
    then show ?thesis
    proof (elim disjE bexE)
      fix p assume "p \<in> set ls" "c \<in> set p"
      with ls(2) label_nodot[of p] show ?thesis by blast
    next
      assume "c = 0x2E"
      then show ?thesis by (simp add: isLineTerminator_def)
    next
      assume "c \<in> set t"
      with tl show ?thesis by blast
    qed
  qed
  have "?L c" if "c \<in> set s" for c
  proof -
    from that have "c \<in> set l \<or> c = 0x40 \<or> c \<in> set d" unfolding sd by auto
    then show ?thesis
    proof (elim disjE)
      assume "c \<in> set l" with llt show ?thesis by blast
    next
      assume "c = 0x40" then show ?thesis by (simp add: isLineTerminator_def)
    next
      assume "c \<in> set d" then show ?thesis by (rule dl)
    qed
  qed
  then have tws: "takeWhile ?L s = s" by (simp add: takeWhile_eq_all_conv)
  have 2: "\<not> hasDotDot (takeWhile ?L s)" unfolding tws by (rule nodd)
  \<comment> \<open>the split at the first @\<close>
  have "takeWhile ?P (l @ 0x40 # d) = l @ takeWhile ?P (0x40 # d)"
    by (rule takeWhile_append2) (use lat in blast)
  then have tw: "takeWhile ?P s = l"
    unfolding sd by simp
  have "dropWhile ?P (l @ 0x40 # d) = dropWhile ?P (0x40 # d)"
    by (rule dropWhile_append2) (use lat in blast)
  then have dw: "dropWhile ?P s = 0x40 # d"
    unfolding sd by simp
  \<comment> \<open>the domain\<close>
  have "\<forall>p \<in> set ls. 0x2E \<notin> set p" using dparts by blast
  from splitOn_join[OF this tp(2)] have sp: "splitOn 0x2E d = ls @ [t]" by (simp add: d_def)
  have "2 \<le> length (ls @ [t])" using ls(1) by (cases ls) simp_all
  moreover have "list_all label (butlast (ls @ [t]))" using ls(2) by (simp add: list_all_iff)
  moreover have "tld (last (ls @ [t]))" using t by simp
  ultimately have 3: "domainPart d"
    unfolding domainPart_def Let_def sp by blast
  from 1 2 l(1) 3 show ?thesis
    unfolding emailRegex_def Let_def tw dw by simp
qed

lemma regex_imp_shape:
  assumes "emailRegex s"
  shows "\<exists>l ls t. s = l @ [0x40] @ concat (map (\<lambda>p. p @ [0x2E]) ls) @ t \<and>
           localPart l \<and> hd l \<noteq> 0x2E \<and> \<not> hasDotDot l \<and>
           ls \<noteq> [] \<and> (\<forall>p \<in> set ls. label p) \<and> tld t"
proof -
  let ?P = "\<lambda>c::16 word. c \<noteq> 0x40"
  let ?L = "\<lambda>c. \<not> isLineTerminator c"
  let ?l = "takeWhile ?P s"
  let ?r = "dropWhile ?P s"
  let ?parts = "splitOn 0x2E (tl ?r)"
  from assms have first: "\<not> (case s of [] \<Rightarrow> False | c # _ \<Rightarrow> c = 0x2E)"
    and nodd: "\<not> hasDotDot (takeWhile ?L s)"
    and l: "localPart ?l" and r: "?r \<noteq> []" and d: "domainPart (tl ?r)"
    by (simp_all add: emailRegex_def Let_def)
  from r have "\<not> ?P (hd ?r)" by (rule hd_dropWhile)
  then have "hd ?r = 0x40" by simp
  with r have rr: "?r = 0x40 # tl ?r" by (cases ?r) simp_all
  have "s = ?l @ ?r" by simp
  then have s: "s = ?l @ 0x40 # tl ?r" using rr by simp
  have j: "tl ?r = concat (map (\<lambda>p. p @ [0x2E]) (butlast ?parts)) @ last ?parts"
    by (rule join_splitOn[symmetric])
  from l have lne: "?l \<noteq> []" and lch: "\<forall>c \<in> set ?l. localChar c"
    by (simp_all add: localPart_iff)
  have "hd s = hd ?l" using lne by (metis hd_append2 takeWhile_dropWhile_id)
  moreover have "s \<noteq> []" using lne by auto
  ultimately have h: "hd ?l \<noteq> 0x2E" using first by (cases s) auto
  from lch have llt: "\<forall>c \<in> set ?l. ?L c" using localChar_plain by blast
  have "takeWhile ?L (?l @ ?r) = ?l @ takeWhile ?L ?r"
    by (rule takeWhile_append2) (use llt in blast)
  then have "takeWhile ?L s = ?l @ takeWhile ?L ?r"
    by (simp only: takeWhile_dropWhile_id)
  with nodd have "\<not> hasDotDot (?l @ takeWhile ?L ?r)" by simp
  then have dd: "\<not> hasDotDot ?l" using hasDotDot_prefix[of ?l "takeWhile ?L ?r"] by blast
  from d have len: "2 \<le> length ?parts" and lab: "list_all label (butlast ?parts)"
    and t: "tld (last ?parts)"
    by (simp_all add: domainPart_def Let_def)
  from len have lsne: "butlast ?parts \<noteq> []" by (cases ?parts rule: rev_cases) auto
  from lab have labs: "\<forall>p \<in> set (butlast ?parts). label p" by (simp add: list_all_iff)
  have "s = ?l @ [0x40] @ concat (map (\<lambda>p. p @ [0x2E]) (butlast ?parts)) @ last ?parts"
    using s j by simp
  with l h dd lsne labs t have
    "s = ?l @ [0x40] @ concat (map (\<lambda>p. p @ [0x2E]) (butlast ?parts)) @ last ?parts \<and>
           localPart ?l \<and> hd ?l \<noteq> 0x2E \<and> \<not> hasDotDot ?l \<and>
           butlast ?parts \<noteq> [] \<and> (\<forall>p \<in> set (butlast ?parts). label p) \<and> tld (last ?parts)"
    by (intro conjI)
  then show ?thesis
    by (intro exI[of _ ?l] exI[of _ "butlast ?parts"] exI[of _ "last ?parts"])
qed

lemma shape_parts_iff:
  "localPart l \<and> hd l \<noteq> 0x2E \<and> \<not> hasDotDot l \<and> ls \<noteq> [] \<and> (\<forall>p \<in> set ls. label p) \<and> tld t \<longleftrightarrow>
   l \<noteq> [] \<and>
   (\<forall>c \<in> set l. isAlnum c \<or> c = 0x5F \<or> c = 0x27 \<or> c = 0x2B \<or> c = 0x2D \<or> c = 0x2E) \<and>
   hd l \<noteq> 0x2E \<and> last l \<noteq> 0x2E \<and> last l \<noteq> 0x27 \<and>
   \<not> sublist [0x2E, 0x2E] l \<and>
   ls \<noteq> [] \<and>
   (\<forall>p \<in> set ls. p \<noteq> [] \<and> isAlnum (hd p) \<and> (\<forall>c \<in> set p. isAlnum c \<or> c = 0x2D)) \<and>
   2 \<le> length t \<and> (\<forall>c \<in> set t. isAlpha c)"
  unfolding localPart_iff localChar_def label_iff tld_def list_all_iff hasDotDot_sublist
  by blast

lemma emailRegex_shape: "emailRegex s \<longleftrightarrow> address_shape s"
proof -
  have "emailRegex s \<longleftrightarrow>
        (\<exists>l ls t. s = l @ [0x40] @ concat (map (\<lambda>p. p @ [0x2E]) ls) @ t \<and>
           localPart l \<and> hd l \<noteq> 0x2E \<and> \<not> hasDotDot l \<and>
           ls \<noteq> [] \<and> (\<forall>p \<in> set ls. label p) \<and> tld t)"
  proof
    assume "emailRegex s"
    then show "\<exists>l ls t. s = l @ [0x40] @ concat (map (\<lambda>p. p @ [0x2E]) ls) @ t \<and>
           localPart l \<and> hd l \<noteq> 0x2E \<and> \<not> hasDotDot l \<and>
           ls \<noteq> [] \<and> (\<forall>p \<in> set ls. label p) \<and> tld t"
      by (rule regex_imp_shape)
  next
    assume "\<exists>l ls t. s = l @ [0x40] @ concat (map (\<lambda>p. p @ [0x2E]) ls) @ t \<and>
           localPart l \<and> hd l \<noteq> 0x2E \<and> \<not> hasDotDot l \<and>
           ls \<noteq> [] \<and> (\<forall>p \<in> set ls. label p) \<and> tld t"
    then show "emailRegex s"
      by (elim exE conjE) (rule shape_imp_regex)
  qed
  then show ?thesis
    unfolding address_shape_def shape_parts_iff .
qed

lemma percent_rfc: "rfc5322_addr_spec percent_address"
  by (simp add: rfc5322_addr_spec_def dot_atom_def atext_def percent_address_def js_def char_defs)

lemma percent_rejected:
  "zString_parse (schema Email_key) percent_address = [js ''Please enter a valid email'']"
proof -
  have t: "trim percent_address = percent_address"
    by (simp add: trim_def percent_address_def js_def char_defs)
  have e: "\<not> emailRegex percent_address"
    by (simp add: percent_address_def js_def email_defs char_defs)
  have l: "length percent_address = 20"
    by (simp add: percent_address_def js_def)
  show ?thesis unfolding parse_email t by (simp add: e l)
qed

text \<open>
  Claim C8, as stated, fails: the email rule does not accept every well-formed address
  of at most 255 characters. \<open>user%tag@example.com\<close> is a well-formed address of 20
  characters, and the rule rejects it with the message for an invalid email.
\<close>

theorem well_formed_address_rejected:
  "rfc5322_addr_spec percent_address \<and>
   length percent_address \<le> 255 \<and>
   messages_for Email_key (formSchema_safeParse (jane_doe\<lparr>email := percent_address\<rparr>)) =
     [js ''Please enter a valid email''] \<and>
   errors (handleSubmit (editing (jane_doe\<lparr>email := percent_address\<rparr>))) Email_key =
     Some (js ''Please enter a valid email'')"
proof -
  have g: "get (jane_doe\<lparr>email := percent_address\<rparr>) Email_key = percent_address"
    by simp
  have f: "formData (editing (jane_doe\<lparr>email := percent_address\<rparr>)) = jane_doe\<lparr>email := percent_address\<rparr>"
    by (simp add: editing_def)
  have 1: "length percent_address \<le> 255"
    by (simp add: percent_address_def js_def)
  have 2: "messages_for Email_key (formSchema_safeParse (jane_doe\<lparr>email := percent_address\<rparr>)) =
     [js ''Please enter a valid email'']"
    by (simp only: messages_for_parse g percent_rejected)
  have 3: "errors (handleSubmit (editing (jane_doe\<lparr>email := percent_address\<rparr>))) Email_key =
     Some (js ''Please enter a valid email'')"
    unfolding errors_handleSubmit f by (simp only: g percent_rejected Let_def) simp
  from percent_rfc 1 2 3 show ?thesis by blast
qed

text \<open>
  Claim C8, amended. The email rule rejects the empty string, every string without
  \<open>@\<close> and every string in which no dot follows the first \<open>@\<close>. It accepts every
  string of at most 255 characters that has the shape of an address given by
  \<open>address_shape\<close>, and it accepts a string exactly when its trimmed form has that
  shape and at most 255 characters.
\<close>

theorem email_shape_rule:
  "messages_for Email_key (formSchema_safeParse (fd\<lparr>email := []\<rparr>)) \<noteq> [] \<and>
   (0x40 \<notin> set (email fd) \<longrightarrow> messages_for Email_key (formSchema_safeParse fd) \<noteq> []) \<and>
   (0x2E \<notin> set (dropWhile (\<lambda>c. c \<noteq> 0x40) (email fd)) \<longrightarrow>
      messages_for Email_key (formSchema_safeParse fd) \<noteq> []) \<and>
   (address_shape (email fd) \<and> length (email fd) \<le> 255 \<longrightarrow>
      messages_for Email_key (formSchema_safeParse fd) = []) \<and>
   (messages_for Email_key (formSchema_safeParse fd) = [] \<longleftrightarrow>
      address_shape (trim (email fd)) \<and> length (trim (email fd)) \<le> 255)"
proof -
  have iff: "messages_for Email_key (formSchema_safeParse g) = [] \<longleftrightarrow>
      emailRegex (trim (email g)) \<and> length (trim (email g)) \<le> 255" for g
    unfolding messages_for_parse parse_email by auto
  have 1: "messages_for Email_key (formSchema_safeParse (fd\<lparr>email := []\<rparr>)) \<noteq> []"
    unfolding iff by (simp add: trim_Nil emailRegex_Nil)
  have 3: "messages_for Email_key (formSchema_safeParse fd) \<noteq> []"
    if "0x2E \<notin> set (dropWhile (\<lambda>c. c \<noteq> 0x40) (email fd))"
    using that email_accepted_dot[of "email fd"] unfolding iff by blast
  have 2: "messages_for Email_key (formSchema_safeParse fd) \<noteq> []" if "0x40 \<notin> set (email fd)"
  proof -
    from that have "0x40 \<notin> set (trim (email fd))" using set_trim[of "email fd"] by blast
    then show ?thesis using emailRegex_at[of "trim (email fd)"] unfolding iff by blast
  qed
  have 4: "messages_for Email_key (formSchema_safeParse fd) = []"
    if "address_shape (email fd) \<and> length (email fd) \<le> 255"
  proof -
    from that have e: "emailRegex (email fd)" by (simp add: emailRegex_shape)
    with that emailRegex_trim[OF e] show ?thesis unfolding iff by simp
  qed
  have 5: "messages_for Email_key (formSchema_safeParse fd) = [] \<longleftrightarrow>
      address_shape (trim (email fd)) \<and> length (trim (email fd)) \<le> 255"
    unfolding iff emailRegex_shape ..
  from 1 2 3 4 5 show ?thesis by blast
qed

lemma jane_shape: "address_shape (js ''jane@acme.com'')"
  unfolding address_shape_def
  by (intro exI[of _ "js ''jane''"] exI[of _ "[js ''acme'']"] exI[of _ "js ''com''"])
     (simp add: js_def char_defs sublist_Cons_right)

theorem email_shape_rule_witness:
  "address_shape (email jane_doe) \<and> length (email jane_doe) \<le> 255 \<and>
   messages_for Email_key (formSchema_safeParse jane_doe) = [] \<and>
   0x40 \<notin> set (email (jane_doe\<lparr>email := js ''jane.acme.com''\<rparr>)) \<and>
   messages_for Email_key (formSchema_safeParse (jane_doe\<lparr>email := js ''jane.acme.com''\<rparr>)) \<noteq> [] \<and>
   0x2E \<notin> set (dropWhile (\<lambda>c. c \<noteq> 0x40) (email (jane_doe\<lparr>email := js ''jane@acme''\<rparr>))) \<and>
   messages_for Email_key (formSchema_safeParse (jane_doe\<lparr>email := js ''jane@acme''\<rparr>)) \<noteq> []"
proof -
  have 1: "address_shape (email jane_doe) \<and> length (email jane_doe) \<le> 255"
    using jane_shape by (simp add: jane_doe_def js_def)
  have 2: "0x40 \<notin> set (email (jane_doe\<lparr>email := js ''jane.acme.com''\<rparr>))"
    by (simp add: js_def)
  have 3: "0x2E \<notin> set (dropWhile (\<lambda>c. c \<noteq> 0x40) (email (jane_doe\<lparr>email := js ''jane@acme''\<rparr>)))"
    by (simp add: js_def)
  from 1 email_shape_rule [of jane_doe] have a: "messages_for Email_key (formSchema_safeParse jane_doe) = []"
    by blast
  from 2 email_shape_rule [of "jane_doe\<lparr>email := js ''jane.acme.com''\<rparr>"]
  have b: "messages_for Email_key (formSchema_safeParse (jane_doe\<lparr>email := js ''jane.acme.com''\<rparr>)) \<noteq> []"
    by blast
  from 3 email_shape_rule [of "jane_doe\<lparr>email := js ''jane@acme''\<rparr>"]
  have c: "messages_for Email_key (formSchema_safeParse (jane_doe\<lparr>email := js ''jane@acme''\<rparr>)) \<noteq> []"
    by blast
  from 1 2 3 a b c show ?thesis by blast
qed

text \<open>
  Claim C10. For \<open>name\<close>, \<open>email\<close>, \<open>company\<close> and \<open>automationGoal\<close> the rules
  are applied to the trimmed value: the field is accepted exactly when its trimmed form
  is not empty (for the email: has the email shape) and is within the limit, whatever
  the length before trimming; a value of white space only is rejected with the message
  for a missing value.
\<close>

theorem trimmed_rules:
  "(messages_for Name (formSchema_safeParse fd) = [] \<longleftrightarrow>
      1 \<le> length (trim (name fd)) \<and> length (trim (name fd)) \<le> 100) \<and>
   (messages_for Company (formSchema_safeParse fd) = [] \<longleftrightarrow>
      1 \<le> length (trim (company fd)) \<and> length (trim (company fd)) \<le> 100) \<and>
   (messages_for AutomationGoal (formSchema_safeParse fd) = [] \<longleftrightarrow>
      1 \<le> length (trim (automationGoal fd)) \<and> length (trim (automationGoal fd)) \<le> 500) \<and>
   (messages_for Email_key (formSchema_safeParse fd) = [] \<longleftrightarrow>
      emailRegex (trim (email fd)) \<and> length (trim (email fd)) \<le> 255) \<and>
   (list_all isWhiteSpace (name fd) \<longrightarrow>
      messages_for Name (formSchema_safeParse fd) = [js ''Name is required'']) \<and>
   (list_all isWhiteSpace (company fd) \<longrightarrow>
      messages_for Company (formSchema_safeParse fd) = [js ''Company name is required'']) \<and>
   (list_all isWhiteSpace (automationGoal fd) \<longrightarrow>
      messages_for AutomationGoal (formSchema_safeParse fd) =
        [js ''Please describe what you want to automate'']) \<and>
   (list_all isWhiteSpace (email fd) \<longrightarrow>
      messages_for Email_key (formSchema_safeParse fd) = [js ''Please enter a valid email''])"
proof -
  have ws: "list_all isWhiteSpace v \<Longrightarrow> trim v = []" for v
    by (simp add: trim_all_ws list_all_iff)
  have 1: "messages_for Name (formSchema_safeParse fd) = [] \<longleftrightarrow>
      1 \<le> length (trim (name fd)) \<and> length (trim (name fd)) \<le> 100"
    unfolding messages_for_parse schema.simps parse_trim_min_max get.simps
    by (auto simp: Suc_le_eq)
  have 2: "messages_for Company (formSchema_safeParse fd) = [] \<longleftrightarrow>
      1 \<le> length (trim (company fd)) \<and> length (trim (company fd)) \<le> 100"
    unfolding messages_for_parse schema.simps parse_trim_min_max get.simps
    by (auto simp: Suc_le_eq)
  have 3: "messages_for AutomationGoal (formSchema_safeParse fd) = [] \<longleftrightarrow>
      1 \<le> length (trim (automationGoal fd)) \<and> length (trim (automationGoal fd)) \<le> 500"
    unfolding messages_for_parse schema.simps parse_trim_min_max get.simps
    by (auto simp: Suc_le_eq)
  have 4: "messages_for Email_key (formSchema_safeParse fd) = [] \<longleftrightarrow>
      emailRegex (trim (email fd)) \<and> length (trim (email fd)) \<le> 255"
    unfolding messages_for_parse parse_email get.simps by auto
  have 5: "messages_for Name (formSchema_safeParse fd) = [js ''Name is required'']"
    if "list_all isWhiteSpace (name fd)"
    unfolding messages_for_parse schema.simps parse_trim_min_max get.simps
    by (simp add: ws[OF that])
  have 6: "messages_for Company (formSchema_safeParse fd) = [js ''Company name is required'']"
    if "list_all isWhiteSpace (company fd)"
    unfolding messages_for_parse schema.simps parse_trim_min_max get.simps
    by (simp add: ws[OF that])
  have 7: "messages_for AutomationGoal (formSchema_safeParse fd) =
        [js ''Please describe what you want to automate'']"
    if "list_all isWhiteSpace (automationGoal fd)"
    unfolding messages_for_parse schema.simps parse_trim_min_max get.simps
    by (simp add: ws[OF that])
  have 8: "messages_for Email_key (formSchema_safeParse fd) = [js ''Please enter a valid email'']"
    if "list_all isWhiteSpace (email fd)"
    unfolding messages_for_parse parse_email get.simps
    by (simp add: ws[OF that] emailRegex_Nil)
  from 1 2 3 4 5 6 7 8 show ?thesis by blast
qed

theorem trimmed_rules_witness:
  "list_all isWhiteSpace (name blank_fields) \<and>
   list_all isWhiteSpace (company blank_fields) \<and>
   list_all isWhiteSpace (automationGoal blank_fields) \<and>
   list_all isWhiteSpace (email blank_fields) \<and>
   messages_for Name (formSchema_safeParse blank_fields) = [js ''Name is required''] \<and>
   messages_for Email_key (formSchema_safeParse blank_fields) = [js ''Please enter a valid email''] \<and>
   100 < length (name padded_name) \<and> length (trim (name padded_name)) = 8 \<and>
   messages_for Name (formSchema_safeParse padded_name) = []"
proof -
  have 1: "list_all isWhiteSpace (name blank_fields) \<and> list_all isWhiteSpace (company blank_fields) \<and>
      list_all isWhiteSpace (automationGoal blank_fields) \<and> list_all isWhiteSpace (email blank_fields)"
    by (simp add: blank_fields_def js_def char_defs)
  have "trim (js ''Jane Doe'' @ replicate 150 0x20) = js ''Jane Doe''"
    by (simp add: trim_def js_def char_defs dropWhile_append)
  then have 2: "100 < length (name padded_name) \<and> length (trim (name padded_name)) = 8"
    by (simp add: padded_name_def js_def)
  from 1 2 trimmed_rules [of blank_fields] trimmed_rules [of padded_name] show ?thesis
    by simp
qed


section \<open>Submission: the recorded messages\<close>



lemma jane_doe_field: "zString_parse (schema k) (get jane_doe k) = []"
  by (rule jane_doe_valid[unfolded safeParse_Nil_iff, rule_format])







section \<open>Submission: the flags\<close>

lemma parse_empty_phone: "zString_parse (schema Phone) [] = []"
  by (simp add: message_or_def trim_Nil)

lemma parse_empty_required:
  "k \<noteq> Phone \<Longrightarrow> \<exists>m. zString_parse (schema k) [] = [m] \<and> m \<noteq> []"
  by (cases k) (simp_all add: message_or_def trim_Nil emailRegex_Nil js_def)

lemma handleSubmit_invalid:
  "formSchema_safeParse (formData s) \<noteq> [] \<Longrightarrow>
   handleSubmit s = s\<lparr>errors := fieldErrors_of (formSchema_safeParse (formData s)), isSubmitting := False\<rparr>"
  by (simp add: handleSubmit_def Let_def)

lemma handleSubmit_valid:
  "formSchema_safeParse (formData s) = [] \<Longrightarrow>
   handleSubmit s = s\<lparr>errors := (\<lambda>k. None), isSubmitting := True, timers := timers s @ [1200]\<rparr>"
  by (simp add: handleSubmit_def Let_def)

lemma handleSubmit_frame:
  "formData (handleSubmit s) = formData s \<and> isSubmitted (handleSubmit s) = isSubmitted s"
  by (simp add: handleSubmit_def Let_def)

text \<open>
  Claim C3. When every field of the form is either empty or valid and at least one
  required field (any field but the phone) is empty, \<open>handleSubmit\<close> records a message
  for exactly the empty required fields, none of them the empty string; an empty phone
  gets no message. It leaves \<open>isSubmitted\<close> as it was, ends with \<open>isSubmitting\<close>
  false, and sets no timeout.
\<close>

theorem empty_required_fields:
  assumes "\<forall>k. get (formData s) k = [] \<or> messages_for k (formSchema_safeParse (formData s)) = []"
    and "\<exists>k. k \<noteq> Phone \<and> get (formData s) k = []"
  shows "(\<forall>k. (errors (handleSubmit s) k \<noteq> None \<longleftrightarrow> k \<noteq> Phone \<and> get (formData s) k = []) \<and>
              errors (handleSubmit s) k \<noteq> Some []) \<and>
         isSubmitted (handleSubmit s) = isSubmitted s \<and>
         \<not> isSubmitting (handleSubmit s) \<and>
         timers (handleSubmit s) = timers s \<and>
         formData (handleSubmit s) = formData s"
proof -
  let ?fd = "formData s"
  have per_key: "(errors (handleSubmit s) k \<noteq> None \<longleftrightarrow> k \<noteq> Phone \<and> get ?fd k = []) \<and>
              errors (handleSubmit s) k \<noteq> Some []" for k
  proof (cases "get ?fd k = []")
    case True
    show ?thesis
    proof (cases "k = Phone")
      case True
      with \<open>get ?fd k = []\<close> show ?thesis
        by (simp add: errors_handleSubmit message_or_def trim_Nil)
    next
      case False
      from parse_empty_required[OF False] obtain m where
        "zString_parse (schema k) [] = [m]" "m \<noteq> []" by blast
      with True False show ?thesis
        by (simp add: errors_handleSubmit)
    qed
  next
    case False
    with assms(1) have "zString_parse (schema k) (get ?fd k) = []"
      unfolding messages_for_parse by blast
    with False show ?thesis
      by (simp add: errors_handleSubmit)
  qed
  from assms(2) obtain k where k: "k \<noteq> Phone" "get ?fd k = []" by blast
  from parse_empty_required[OF k(1)] k(2) have "zString_parse (schema k) (get ?fd k) \<noteq> []"
    by auto
  then have "formSchema_safeParse ?fd \<noteq> []"
    by (auto simp: safeParse_Nil_iff)
  then have "handleSubmit s = s\<lparr>errors := fieldErrors_of (formSchema_safeParse ?fd), isSubmitting := False\<rparr>"
    by (rule handleSubmit_invalid)
  then have "isSubmitted (handleSubmit s) = isSubmitted s \<and> \<not> isSubmitting (handleSubmit s) \<and>
         timers (handleSubmit s) = timers s \<and> formData (handleSubmit s) = formData s"
    by simp
  with per_key show ?thesis by blast
qed

theorem empty_required_fields_witness:
  "errors (handleSubmit (editing missing_fields)) Name \<noteq> None \<and>
   errors (handleSubmit (editing missing_fields)) Urgency \<noteq> None \<and>
   errors (handleSubmit (editing missing_fields)) Phone = None \<and>
   errors (handleSubmit (editing missing_fields)) Email_key = None \<and>
   errors (handleSubmit (editing missing_fields)) Company = None \<and>
   errors (handleSubmit (editing missing_fields)) CompanySize = None \<and>
   errors (handleSubmit (editing missing_fields)) AutomationGoal = None \<and>
   errors (handleSubmit (editing missing_fields)) CurrentWorkflow = None \<and>
   \<not> isSubmitted (handleSubmit (editing missing_fields)) \<and>
   \<not> isSubmitting (handleSubmit (editing missing_fields)) \<and>
   timers (handleSubmit (editing missing_fields)) = []"
proof -
  let ?s = "editing missing_fields"
  have f: "formData ?s = missing_fields" by (simp add: editing_def)
  have g: "get missing_fields k = (if k = Name \<or> k = Urgency then [] else get jane_doe k)" for k
    by (cases k) (simp_all add: missing_fields_def)
  have 1: "\<forall>k. get (formData ?s) k = [] \<or> messages_for k (formSchema_safeParse (formData ?s)) = []"
    unfolding f messages_for_parse by (simp add: g jane_doe_field)
  have "get missing_fields Name = []" by (simp add: missing_fields_def)
  then have 2: "\<exists>k. k \<noteq> Phone \<and> get (formData ?s) k = []"
    unfolding f by blast
  have 3: "get (formData ?s) k = [] \<longleftrightarrow> k = Name \<or> k = Urgency \<or> k = Phone" for k
    unfolding f by (cases k) (simp_all add: missing_fields_def jane_doe_def js_def)
  have 4: "\<not> isSubmitted ?s \<and> timers ?s = []" by (simp add: editing_def initial_def)
  note r = empty_required_fields [OF 1 2]
  from r have e: "errors (handleSubmit ?s) k \<noteq> None \<longleftrightarrow> k \<noteq> Phone \<and> get (formData ?s) k = []" for k
    by blast
  from r have fl: "isSubmitted (handleSubmit ?s) = isSubmitted ?s \<and> \<not> isSubmitting (handleSubmit ?s) \<and>
      timers (handleSubmit ?s) = timers ?s"
    by blast
  have "errors (handleSubmit ?s) Name \<noteq> None" unfolding e 3 by simp
  moreover have "errors (handleSubmit ?s) Urgency \<noteq> None" unfolding e 3 by simp
  moreover have "\<not> errors (handleSubmit ?s) Phone \<noteq> None" unfolding e 3 by simp
  moreover have "\<not> errors (handleSubmit ?s) Email_key \<noteq> None" unfolding e 3 by simp
  moreover have "\<not> errors (handleSubmit ?s) Company \<noteq> None" unfolding e 3 by simp
  moreover have "\<not> errors (handleSubmit ?s) CompanySize \<noteq> None" unfolding e 3 by simp
  moreover have "\<not> errors (handleSubmit ?s) AutomationGoal \<noteq> None" unfolding e 3 by simp
  moreover have "\<not> errors (handleSubmit ?s) CurrentWorkflow \<noteq> None" unfolding e 3 by simp
  ultimately show ?thesis using fl 4 by simp
qed

lemma handleSubmit_resume_eq:
  "handleSubmit_resume s = s\<lparr>isSubmitting := False, isSubmitted := True\<rparr>"
  by (simp add: handleSubmit_resume_def Let_def)

text \<open>
  Claim C4. When the form passes validation and no submission is in flight,
  \<open>handleSubmit\<close> sets \<open>isSubmitting\<close>, clears the errors and waits for one timeout of
  1200 ms; when the timeout fires \<open>isSubmitting\<close> is cleared and \<open>isSubmitted\<close> is
  set, and the errors are still empty.
\<close>

theorem valid_submission:
  assumes "formSchema_safeParse (formData s) = []" and "\<not> isSubmitted s" and "timers s = []"
  shows "step Submit s = Some (s\<lparr>errors := (\<lambda>k. None), isSubmitting := True, timers := [1200]\<rparr>) \<and>
         step Timeout (s\<lparr>errors := (\<lambda>k. None), isSubmitting := True, timers := [1200]\<rparr>) =
           Some (s\<lparr>errors := (\<lambda>k. None), isSubmitting := False, isSubmitted := True, timers := []\<rparr>) \<and>
         run [Submit, Timeout] s =
           Some (s\<lparr>errors := (\<lambda>k. None), isSubmitting := False, isSubmitted := True, timers := []\<rparr>)"
proof -
  let ?s1 = "s\<lparr>errors := (\<lambda>k. None), isSubmitting := True, timers := [1200]\<rparr>"
  let ?s2 = "s\<lparr>errors := (\<lambda>k. None), isSubmitting := False, isSubmitted := True, timers := []\<rparr>"
  from assms have 1: "step Submit s = Some ?s1"
    by (simp add: handleSubmit_valid)
  have 2: "step Timeout ?s1 = Some ?s2"
    by (simp add: handleSubmit_resume_eq)
  from 1 2 have 3: "run [Submit, Timeout] s = Some ?s2"
    by simp
  from 1 2 3 show ?thesis by blast
qed

theorem valid_submission_witness:
  "formSchema_safeParse (formData (editing jane_doe)) = [] \<and>
   step Submit (editing jane_doe) =
     Some \<lparr>formData = jane_doe, errors = (\<lambda>k. None), isSubmitting = True, isSubmitted = False,
           timers = [1200]\<rparr> \<and>
   run [Submit, Timeout] (editing jane_doe) =
     Some \<lparr>formData = jane_doe, errors = (\<lambda>k. None), isSubmitting = False, isSubmitted = True,
           timers = []\<rparr>"
proof -
  have 1: "formSchema_safeParse (formData (editing jane_doe)) = []"
    using jane_doe_valid by (simp add: editing_def)
  have 2: "\<not> isSubmitted (editing jane_doe)" and 3: "timers (editing jane_doe) = []"
    by (simp_all add: editing_def initial_def)
  from valid_submission [OF 1 2 3] 1 show ?thesis
    by (simp add: editing_def initial_def)
qed

lemma run_invariant:
  assumes "P s" and "\<And>e s s'. P s \<Longrightarrow> step e s = Some s' \<Longrightarrow> P s'" and "run es s = Some s'"
  shows "P s'"
  using assms(1,3)
proof (induction es arbitrary: s)
  case Nil
  then show ?case by simp
next
  case (Cons e es)
  from Cons.prems(2) obtain s1 where s1: "step e s = Some s1" "run es s1 = Some s'"
    by (auto split: option.splits)
  from assms(2)[OF Cons.prems(1) s1(1)] have "P s1" .
  from Cons.IH[OF this s1(2)] show ?case .
qed

lemma step_flags:
  assumes "isSubmitted s \<longrightarrow> \<not> isSubmitting s" and "step e s = Some s'"
  shows "isSubmitted s' \<longrightarrow> \<not> isSubmitting s'"
proof (cases e)
  case (Change k v)
  with assms show ?thesis
    by (auto simp: handleChange_def Let_def split: if_splits)
next
  case (PhoneChange v)
  with assms show ?thesis
    by (auto simp: handlePhoneChange_def Let_def split: if_splits)
next
  case Submit
  with assms have "\<not> isSubmitted s" and "s' = handleSubmit s"
    by (auto split: if_splits)
  then show ?thesis using handleSubmit_frame[of s] by simp
next
  case Timeout
  with assms show ?thesis
    by (auto simp: handleSubmit_resume_eq split: list.splits)
qed

lemma handlers_keep_submitted:
  "isSubmitted s \<Longrightarrow>
     isSubmitted (handleChange k v s) \<and> isSubmitted (handlePhoneChange w s) \<and>
     isSubmitted (handleSubmit s) \<and> isSubmitted (handleSubmit_resume s)"
  by (simp add: handleChange_def handlePhoneChange_def handleSubmit_frame handleSubmit_resume_eq Let_def)

lemma step_keeps_submitted:
  assumes "isSubmitted s" and "step e s = Some s'"
  shows "isSubmitted s'"
proof (cases e)
  case Timeout
  with assms show ?thesis
    by (auto simp: handleSubmit_resume_eq split: list.splits)
qed (use assms in \<open>auto split: if_splits\<close>)

text \<open>
  Claim C5. In every state the component reaches from its initial state, \<open>isSubmitting\<close>
  and \<open>isSubmitted\<close> are not both true. No handler, run in any state, resets
  \<open>isSubmitted\<close>, and so it stays true after every further sequence of events.
\<close>

theorem submitted_flags:
  "(run es initial = Some s \<longrightarrow> \<not> (isSubmitting s \<and> isSubmitted s)) \<and>
   (isSubmitted s \<longrightarrow>
      isSubmitted (handleChange k v s) \<and> isSubmitted (handlePhoneChange w s) \<and>
      isSubmitted (handleSubmit s) \<and> isSubmitted (handleSubmit_resume s)) \<and>
   (isSubmitted s \<and> run es' s = Some s' \<longrightarrow> isSubmitted s')"
proof -
  have 1: "\<not> (isSubmitting s \<and> isSubmitted s)" if r: "run es initial = Some s"
  proof -
    have "isSubmitted initial \<longrightarrow> \<not> isSubmitting initial" by (simp add: initial_def)
    from run_invariant[where P = "\<lambda>s. isSubmitted s \<longrightarrow> \<not> isSubmitting s", OF this _ r]
    have "isSubmitted s \<longrightarrow> \<not> isSubmitting s" using step_flags by blast
    then show ?thesis by blast
  qed
  have 3: "isSubmitted s'" if "isSubmitted s" and r: "run es' s = Some s'"
    using run_invariant[where P = isSubmitted, OF that(1) _ r] step_keeps_submitted by blast
  from 1 handlers_keep_submitted[of s k v w] 3 show ?thesis by blast
qed

lemma run_jane_events:
  "run jane_events initial =
     Some \<lparr>formData = jane_doe, errors = (\<lambda>k. None), isSubmitting = False, isSubmitted = True,
           timers = []\<rparr>"
proof -
  let ?cs = "[Change Name (js ''Jane Doe''), Change Email_key (js ''jane@acme.com''),
      Change Company (js ''Acme''), Change CompanySize (js ''11-50''),
      Change AutomationGoal (js ''Automate invoicing''), Change CurrentWorkflow (js ''manually''),
      Change Urgency (js ''asap'')]"
  have 1: "run ?cs initial = Some (editing jane_doe)"
    by (simp add: initial_def editing_def jane_doe_def handleChange_def truthy_def)
  have 2: "run (xs @ ys) s = (case run xs s of None \<Rightarrow> None | Some s' \<Rightarrow> run ys s')" for xs ys s
    by (induction xs arbitrary: s) (auto split: option.splits)
  have 3: "jane_events = ?cs @ [Submit, Timeout]" by (simp add: jane_events_def)
  have 4: "formSchema_safeParse (formData (editing jane_doe)) = []"
    using jane_doe_valid by (simp add: editing_def)
  have 5: "run [Submit, Timeout] (editing jane_doe) =
     Some \<lparr>formData = jane_doe, errors = (\<lambda>k. None), isSubmitting = False, isSubmitted = True,
           timers = []\<rparr>"
  proof -
    have hs: "handleSubmit (editing jane_doe) =
        \<lparr>formData = jane_doe, errors = (\<lambda>k. None), isSubmitting = True, isSubmitted = False,
         timers = [1200]\<rparr>"
      unfolding handleSubmit_valid[OF 4] by (simp add: editing_def initial_def)
    have ns: "\<not> isSubmitted (editing jane_doe)"
      by (simp add: editing_def initial_def)
    show ?thesis by (simp add: ns hs handleSubmit_resume_eq)
  qed
  show ?thesis unfolding 3 2 1 using 5 by simp
qed

theorem submitted_flags_witness:
  "run jane_events initial = Some \<lparr>formData = jane_doe, errors = (\<lambda>k. None), isSubmitting = False,
      isSubmitted = True, timers = []\<rparr> \<and>
   \<not> (isSubmitting \<lparr>formData = jane_doe, errors = (\<lambda>k. None), isSubmitting = False,
      isSubmitted = True, timers = []\<rparr> \<and>
      isSubmitted \<lparr>formData = jane_doe, errors = (\<lambda>k. None), isSubmitting = False,
      isSubmitted = True, timers = []\<rparr>) \<and>
   isSubmitted (handleSubmit \<lparr>formData = jane_doe, errors = (\<lambda>k. None), isSubmitting = False,
      isSubmitted = True, timers = []\<rparr>)"
  using submitted_flags [of jane_events "\<lparr>formData = jane_doe, errors = (\<lambda>k. None), isSubmitting = False,
      isSubmitted = True, timers = []\<rparr>" Name "[]" "[]" "[]"
      "\<lparr>formData = jane_doe, errors = (\<lambda>k. None), isSubmitting = False,
      isSubmitted = True, timers = []\<rparr>"] run_jane_events
  by simp


section \<open>Change handlers\<close>





section \<open>The phone is always valid\<close>

lemma phone_valid: "length p \<le> 20 \<Longrightarrow> zString_parse (schema Phone) p = []"
  using length_trim[of p] by (simp add: message_or_def)

lemma step_phone:
  assumes "phone_inv s" and "step e s = Some s'"
  shows "phone_inv s'"
proof (cases e)
  case (Change k v)
  with assms have k: "k \<noteq> Phone" and s': "s' = handleChange k v s"
    by (auto split: if_splits)
  from k have "phone (put k v (formData s)) = phone (formData s)"
    by (cases k) simp_all
  with assms(1) k show ?thesis
    unfolding s' by (simp add: phone_inv_def handleChange_def Let_def)
next
  case (PhoneChange v)
  with assms have s': "s' = handlePhoneChange v s"
    by (auto split: if_splits)
  from assms(1) show ?thesis
    unfolding s' using formatPhoneNumber_chars[of _ v]
    by (simp add: phone_inv_def handlePhoneChange_def Let_def formatPhoneNumber_length)
next
  case Submit
  with assms have s': "s' = handleSubmit s"
    by (auto split: if_splits)
  from assms(1) have "zString_parse (schema Phone) (get (formData s) Phone) = []"
    by (simp only: get.simps) (rule phone_valid, simp add: phone_inv_def)
  then have "errors (handleSubmit s) Phone = None"
    by (simp only: errors_handleSubmit Let_def simp_thms if_True)
  with assms(1) show ?thesis
    unfolding s' by (simp add: phone_inv_def handleSubmit_frame)
next
  case Timeout
  with assms show ?thesis
    by (auto simp: phone_inv_def handleSubmit_resume_eq split: list.splits)
qed

text \<open>
  Claim C9. In every state the component reaches from its initial state, the stored
  phone contains only digits, \<open>+\<close>, \<open>-\<close>, white space and parentheses and has at
  most 20 characters. So the phone rule never fails on such a form: no error is recorded
  for the phone, in that state or by a submission from it.
\<close>

theorem phone_always_valid:
  "run es initial = Some s \<Longrightarrow>
     (\<forall>c \<in> set (phone (formData s)).
        isDigit c \<or> c = 0x2B \<or> c = 0x2D \<or> isWhiteSpace c \<or> c = 0x28 \<or> c = 0x29) \<and>
     length (phone (formData s)) \<le> 20 \<and>
     messages_for Phone (formSchema_safeParse (formData s)) = [] \<and>
     errors s Phone = None \<and>
     errors (handleSubmit s) Phone = None"
proof -
  assume r: "run es initial = Some s"
  have "phone_inv initial" by (simp add: phone_inv_def initial_def)
  from run_invariant[where P = phone_inv, OF this _ r] have i: "phone_inv s"
    using step_phone by blast
  then have v: "zString_parse (schema Phone) (get (formData s) Phone) = []"
    by (simp only: get.simps) (rule phone_valid, simp add: phone_inv_def)
  then have m: "messages_for Phone (formSchema_safeParse (formData s)) = []"
    by (simp only: messages_for_parse)
  from v have h: "errors (handleSubmit s) Phone = None"
    by (simp only: errors_handleSubmit Let_def simp_thms if_True)
  from i have "\<forall>c \<in> set (phone (formData s)).
        isDigit c \<or> c = 0x2B \<or> c = 0x2D \<or> isWhiteSpace c \<or> c = 0x28 \<or> c = 0x29"
    unfolding phone_inv_def phoneChar_def by blast
  with i m h show ?thesis by (simp add: phone_inv_def)
qed

theorem phone_always_valid_witness:
  "run phone_events initial =
     Some (handleSubmit (handlePhoneChange (js ''+1 (555) 123-4567 ext. 890123'') initial)) \<and>
   length (phone (formData
     (handleSubmit (handlePhoneChange (js ''+1 (555) 123-4567 ext. 890123'') initial)))) \<le> 20 \<and>
   errors (handleSubmit (handlePhoneChange (js ''+1 (555) 123-4567 ext. 890123'') initial)) Phone = None \<and>
   errors (handleSubmit (handlePhoneChange (js ''+1 (555) 123-4567 ext. 890123'') initial)) Name =
     Some (js ''Name is required'')"
proof -
  let ?s = "handleSubmit (handlePhoneChange (js ''+1 (555) 123-4567 ext. 890123'') initial)"
  have r: "run phone_events initial = Some ?s"
    by (simp add: phone_events_def initial_def handlePhoneChange_def)
  have n: "errors ?s Name = Some (js ''Name is required'')"
    by (simp add: errors_handleSubmit handlePhoneChange_def initial_def message_or_def trim_Nil)
  from phone_always_valid [OF r] r n show ?thesis by simp
qed

section \<open>Editing a field that holds an error\<close>



end
